theory Spec2Isabelle
  imports Main "HOL-Library.Word"
begin

unbundle bit_operations_syntax

section \<open>The 23LC1024 SPI SRAM driver\<close>

subsection \<open>Data\<close>

text \<open>
  Python integers are unbounded: \<open>int\<close>. A \<open>bytes\<close> or \<open>bytearray\<close> object is a list
  of 8-bit words, so that no element of one can lie outside 0..255.
\<close>

type_synonym byte = "8 word"

datatype error = ValueError string

text \<open>The instruction set and the mode constants of the module (\<open>_READ\<close>, \<open>_WRITE\<close>, ...).\<close>

definition READ :: int where "READ = 0x03"
definition WRITE :: int where "WRITE = 0x02"
definition EDIO :: int where "EDIO = 0x3b"
definition EQIO :: int where "EQIO = 0x38"
definition RSTIO :: int where "RSTIO = 0xff"
definition RDMR :: int where "RDMR = 0x05"
definition WRMR :: int where "WRMR = 0x01"

definition MODE_BYTE :: int where "MODE_BYTE = 0x00"
definition MODE_PAGE :: int where "MODE_PAGE = 0x40"
definition MODE_SEQ :: int where "MODE_SEQ = 0xc0"

definition MAX_ADDRESS :: int where "MAX_ADDRESS = 131071"

text \<open>
  What the driver does to its collaborators, in the order it does it: the pin object
  (\<open>Pin(cs, Pin.OUT)\<close>, \<open>cs.value(x)\<close>), the bus (\<open>spi.write(buf)\<close>, \<open>spi.read(n)\<close> with
  the bytes that came back) and the delay (\<open>utime.sleep_us(n)\<close>). The pin is named by
  its identifier and the bus by its port number.
\<close>

datatype event =
    PinInit int
  | PinValue int int
  | SpiWrite nat "byte list"
  | SpiRead nat nat "byte list"
  | SleepUs int

type_synonym trace = "event list"

text \<open>
  The bus is outside the driver: what a read returns is a function of everything that
  happened so far, of the port and of the number of bytes asked for.
\<close>

type_synonym bus = "trace \<Rightarrow> nat \<Rightarrow> nat \<Rightarrow> byte list"

text \<open>
  The attribute \<open>value_read\<close> holds a \<open>bytes\<close> object first and an integer afterwards;
  it does not exist before the first successful read.
\<close>

datatype pyval = PyBytes "byte list" | PyInt int

record device =
  spi :: nat
  cs :: int
  value_read :: "pyval option"

type_synonym 'a outcome = "(error + 'a) \<times> device \<times> trace"

subsection \<open>Built-ins and collaborators\<close>

text \<open>
  \<open>bytearray(list of ints)\<close>: Python raises ValueError for an element outside 0..255.
  The driver only ever passes elements in range (lemmas \<open>bytearray_in_range\<close>,
  \<open>address_byte_range\<close>, \<open>write_byte_valid\<close>, \<open>read_byte_valid\<close>, \<open>init_eq\<close>), so the
  branch is never taken; a runtime that truncated instead would send the same bytes.
\<close>

definition bytearray :: "int list \<Rightarrow> error + byte list" where
  "bytearray xs =
     (if \<forall>x \<in> set xs. 0 \<le> x \<and> x \<le> 255 then Inr (map word_of_int xs)
      else Inl (ValueError ''byte must be in range(0, 256)''))"

text \<open>\<open>int.from_bytes(bs, "big")\<close>.\<close>

definition from_bytes_big :: "byte list \<Rightarrow> int" where
  "from_bytes_big bs = foldl (\<lambda>acc b. acc * 256 + uint b) 0 bs"

definition pin_init :: "int \<Rightarrow> trace \<Rightarrow> trace" where
  "pin_init p t = t @ [PinInit p]"

definition pin_value :: "int \<Rightarrow> int \<Rightarrow> trace \<Rightarrow> trace" where
  "pin_value p x t = t @ [PinValue p x]"

definition spi_write :: "nat \<Rightarrow> byte list \<Rightarrow> trace \<Rightarrow> trace" where
  "spi_write s buf t = t @ [SpiWrite s buf]"

definition spi_read :: "bus \<Rightarrow> nat \<Rightarrow> nat \<Rightarrow> trace \<Rightarrow> byte list \<times> trace" where
  "spi_read b s n t = (let r = b t s n in (r, t @ [SpiRead s n r]))"

definition sleep_us :: "int \<Rightarrow> trace \<Rightarrow> trace" where
  "sleep_us n t = t @ [SleepUs n]"

subsection \<open>The driver\<close>

text \<open>
  The four lines that \<open>write_byte\<close> and \<open>read_byte\<close> both contain:
  \<^verbatim>\<open>
  address_byte = [0,0,0]
  address_byte[2] = address & 0x0000ff
  address_byte[1] = (address & 0x00ff00) >> 8
  address_byte[0] = (address & 0xff0000) >> 16
  \<close>
\<close>

definition address_byte :: "int \<Rightarrow> int list" where
  "address_byte address =
     (let ab = [0, 0, 0];
          ab = ab[2 := address AND 0x0000ff];
          ab = ab[1 := drop_bit 8 (address AND 0x00ff00)];
          ab = ab[0 := drop_bit 16 (address AND 0xff0000)]
      in ab)"

text \<open>\<open>__init__(self, spi, cs)\<close>: the object built and the trace extended.\<close>

definition init :: "nat \<Rightarrow> int \<Rightarrow> trace \<Rightarrow> unit outcome" where
  "init s p t =
     (let self = \<lparr>spi = s, cs = p, value_read = None\<rparr>;
          t = pin_init p t;
          t = pin_value (cs self) 1 t;
          t = pin_value (cs self) 0 t;
          t = pin_value (cs self) 1 t;
          t = pin_value (cs self) 0 t
      in case bytearray [WRMR, 0] of
           Inl e \<Rightarrow> (Inl e, self, t)
         | Inr buf \<Rightarrow>
             (let t = spi_write (spi self) buf t;
                  t = pin_value (cs self) 1 t;
                  t = sleep_us 50 t
              in (Inr (), self, t)))"

definition write_byte :: "device \<Rightarrow> int \<Rightarrow> int \<Rightarrow> trace \<Rightarrow> unit outcome" where
  "write_byte self address data t =
     (if address > 131071 \<or> address < 0 then
        (Inl (ValueError ''Address is outside of device address range (0 to 131071)''),
         self, t)
      else if data > 255 \<or> data < 0 then
        (Inl (ValueError ''You can only pass an 8-bit data value (0-255) to this function''),
         self, t)
      else
        (let ab = address_byte address;
             t = pin_value (cs self) 0 t
         in case bytearray [WRITE, ab ! 0, ab ! 1, ab ! 2, data] of
              Inl e \<Rightarrow> (Inl e, self, t)
            | Inr buf \<Rightarrow>
                (let t = spi_write (spi self) buf t;
                     t = pin_value (cs self) 1 t
                 in (Inr (), self, t))))"

definition read_byte :: "bus \<Rightarrow> device \<Rightarrow> int \<Rightarrow> trace \<Rightarrow> int outcome" where
  "read_byte b self address t =
     (if address > 131071 \<or> address < 0 then
        (Inl (ValueError
           ''Address is outside of device address range (0 to 131071 (0x1ffff))''),
         self, t)
      else
        (let ab = address_byte address;
             t = pin_value (cs self) 0 t
         in case bytearray [READ, ab ! 0, ab ! 1, ab ! 2] of
              Inl e \<Rightarrow> (Inl e, self, t)
            | Inr buf \<Rightarrow>
                (let t = spi_write (spi self) buf t;
                     (r, t) = spi_read b (spi self) 1 t;
                     self = self\<lparr>value_read := Some (PyBytes r)\<rparr>;
                     t = pin_value (cs self) 1 t;
                     n = from_bytes_big r;
                     self = self\<lparr>value_read := Some (PyInt n)\<rparr>
                 in (Inr n, self, t))))"

subsection \<open>A client of the driver\<close>

text \<open>
  A client, like \<open>mb_23LC1024_example.py\<close>, constructs the object and then calls its two
  methods in some order. A call that raises leaves the object and the trace as they were,
  and the client may carry on with the next call.
\<close>

datatype call = WriteByte int int | ReadByte int

fun do_call :: "bus \<Rightarrow> device \<times> trace \<Rightarrow> call \<Rightarrow> device \<times> trace" where
  "do_call b (self, t) (WriteByte address data) = snd (write_byte self address data t)"
| "do_call b (self, t) (ReadByte address) = snd (read_byte b self address t)"

definition client :: "bus \<Rightarrow> nat \<Rightarrow> int \<Rightarrow> call list \<Rightarrow> device \<times> trace" where
  "client b s p calls = foldl (do_call b) (snd (init s p [])) calls"

text \<open>What a call added to the trace, and the kinds of event counted below.\<close>

fun is_spi_write :: "event \<Rightarrow> bool" where
  "is_spi_write (SpiWrite s buf) = True"
| "is_spi_write _ = False"

fun is_spi_read :: "event \<Rightarrow> bool" where
  "is_spi_read (SpiRead s n r) = True"
| "is_spi_read _ = False"

fun is_cs_low :: "event \<Rightarrow> bool" where
  "is_cs_low (PinValue p x) = (x = 0)"
| "is_cs_low _ = False"

text \<open>
  The first byte of a bus write is the instruction the chip decodes; the driver's three
  are \<open>_WRMR\<close>, \<open>_WRITE\<close> and \<open>_READ\<close>.
\<close>

fun opcode_ok :: "event \<Rightarrow> bool" where
  "opcode_ok (SpiWrite s (x # xs)) = (x = 0x01 \<or> x = 0x02 \<or> x = 0x03)"
| "opcode_ok (SpiWrite s []) = False"
| "opcode_ok _ = True"

subsection \<open>The memory chip on the other end of the bus\<close>

text \<open>
  Modelled from the spec: the 23LC1024 itself, which is hardware and no part of the
  source. The spec's wire framing (section 6) gives what the chip does with the two
  transactions the driver uses: within one chip-select-low window, the five bytes
  \<open>[0x02, addr_hi, addr_mid, addr_lo, value]\<close> store \<open>value\<close> at the address, and after
  the four bytes \<open>[0x03, addr_hi, addr_mid, addr_lo]\<close> the chip sends the byte stored at
  the address. The address field is 24 bits of which the top 7 are ignored (section 3).
  Raising chip-select ends the window; lowering it while it is low changes nothing.
  A bus read clocks zero bytes out to the chip, as MicroPython's \<open>SPI.read\<close> does.
\<close>

record chip =
  mem :: "int \<Rightarrow> byte"
  selected :: bool
  rx :: "byte list"

text \<open>
  Modelled from the spec: the chip's decoding of the 3-byte big-endian address field,
  of which only the low 17 bits count.
\<close>

definition chip_addr :: "byte \<Rightarrow> byte \<Rightarrow> byte \<Rightarrow> int" where
  "chip_addr hi mid lo = (uint hi * 65536 + uint mid * 256 + uint lo) mod 131072"

text \<open>
  Modelled from the spec: one byte clocked into the selected chip; the fifth byte of a
  window that began with the write instruction is stored.
\<close>

definition chip_feed :: "byte \<Rightarrow> chip \<Rightarrow> chip" where
  "chip_feed x c =
     (let r = rx c @ [x]
      in case r of
           [opc, hi, mid, lo, v] \<Rightarrow>
             if opc = 0x02 then c\<lparr>mem := (mem c)(chip_addr hi mid lo := v), rx := r\<rparr>
             else c\<lparr>rx := r\<rparr>
         | _ \<Rightarrow> c\<lparr>rx := r\<rparr>)"

text \<open>
  Modelled from the spec: the chip's reaction to one event on its pin or its bus.
\<close>

fun chip_step :: "nat \<Rightarrow> int \<Rightarrow> chip \<Rightarrow> event \<Rightarrow> chip" where
  "chip_step s p c (PinValue q x) =
     (if q \<noteq> p then c
      else if x = 0 then (if selected c then c else c\<lparr>selected := True, rx := []\<rparr>)
      else c\<lparr>selected := False, rx := []\<rparr>)"
| "chip_step s p c (SpiWrite s' buf) =
     (if s' = s \<and> selected c then fold chip_feed buf c else c)"
| "chip_step s p c (SpiRead s' n r) =
     (if s' = s \<and> selected c then fold chip_feed (replicate n 0) c else c)"
| "chip_step s p c _ = c"

text \<open>
  Modelled from the spec: what the chip sends when the bus reads \<open>n\<close> bytes: the stored
  byte after a read header, nothing (zeros) otherwise. The driver only reads one byte.
\<close>

definition chip_out :: "chip \<Rightarrow> nat \<Rightarrow> byte list" where
  "chip_out c n =
     (case rx c of
        [opc, hi, mid, lo] \<Rightarrow>
          if selected c \<and> opc = 0x03 then replicate n (mem c (chip_addr hi mid lo))
          else replicate n 0
      | _ \<Rightarrow> replicate n 0)"

text \<open>Modelled from the spec: the chip's state after a whole trace.\<close>

definition chip_run :: "nat \<Rightarrow> int \<Rightarrow> chip \<Rightarrow> trace \<Rightarrow> chip" where
  "chip_run s p c0 t = foldl (chip_step s p) c0 t"

text \<open>
  Modelled from the spec: the bus with this chip on port \<open>s\<close>, selected by pin \<open>p\<close>,
  starting in state \<open>c0\<close>.
\<close>

definition chip_bus :: "nat \<Rightarrow> int \<Rightarrow> chip \<Rightarrow> bus" where
  "chip_bus s p c0 t s' n =
     (if s' = s then chip_out (chip_run s p c0 t) n else replicate n 0)"


section \<open>Properties\<close>

subsection \<open>Arithmetic of the address bytes\<close>

lemma and_ff: "(a::int) AND 0xff = a mod 256"
proof -
  have "a AND mask 8 = take_bit 8 a" by (simp add: take_bit_eq_mask)
  then show ?thesis by (simp add: mask_eq_exp_minus_1 take_bit_eq_mod)
qed

lemma and_ff00: "drop_bit 8 ((a::int) AND 0xff00) = (a div 256) mod 256"
proof -
  have "drop_bit 8 (a AND 0xff00) = drop_bit 8 a AND drop_bit 8 (0xff00::int)"
    by (simp only: drop_bit_and)
  also have "drop_bit 8 (0xff00::int) = 0xff" by (simp add: drop_bit_eq_div)
  finally show ?thesis by (simp add: and_ff drop_bit_eq_div)
qed

lemma and_ff0000: "drop_bit 16 ((a::int) AND 0xff0000) = (a div 65536) mod 256"
proof -
  have "drop_bit 16 (a AND 0xff0000) = drop_bit 16 a AND drop_bit 16 (0xff0000::int)"
    by (simp only: drop_bit_and)
  also have "drop_bit 16 (0xff0000::int) = 0xff" by (simp add: drop_bit_eq_div)
  finally show ?thesis by (simp add: and_ff drop_bit_eq_div)
qed

lemma address_byte_eq:
  "address_byte a = [(a div 65536) mod 256, (a div 256) mod 256, a mod 256]"
  by (simp only: address_byte_def Let_def and_ff and_ff00 and_ff0000) simp

lemma address_byte_range: "x \<in> set (address_byte a) \<Longrightarrow> 0 \<le> x \<and> x \<le> 255"
  by (auto simp: address_byte_eq)

lemma mod_256_le: "(x::int) mod 256 \<le> 255"
  using pos_mod_bound [of 256 x] by simp

lemma div_hi_bounds:
  assumes "0 \<le> (a::int)" "a \<le> 131071"
  shows "0 \<le> a div 65536" "a div 65536 \<le> 1"
proof -
  show "0 \<le> a div 65536" using assms(1) by (simp add: pos_imp_zdiv_nonneg_iff)
  have "a div 65536 \<le> 131071 div 65536" using assms(2) by (intro zdiv_mono1) simp_all
  then show "a div 65536 \<le> 1" by simp
qed

lemma div_hi_mod:
  "0 \<le> (a::int) \<Longrightarrow> a \<le> 131071 \<Longrightarrow> a div 65536 mod 256 = a div 65536"
  using div_hi_bounds [of a] by simp

lemma mid_eq: "(a::int) div 256 mod 256 = a mod 65536 div 256"
proof -
  have "a mod 65536 div 256 = a mod (256 * 256) div 256" by simp
  also have "\<dots> = a div 256 mod 256"
    by (simp only: zmod_zmult2_eq)
  finally show ?thesis by simp
qed

lemma recompose: "(a::int) div 65536 * 65536 + a div 256 mod 256 * 256 + a mod 256 = a"
proof -
  have lo: "a mod 65536 mod 256 = a mod 256"
    by (simp add: mod_mod_cancel)
  have "a = a div 65536 * 65536 + a mod 65536" by simp
  also have "a mod 65536 = a mod 65536 div 256 * 256 + a mod 65536 mod 256" by simp
  finally show ?thesis by (simp add: mid_eq lo)
qed

subsection \<open>Bytes\<close>

lemma bytearray_in_range:
  "\<forall>x \<in> set xs. 0 \<le> x \<and> x \<le> 255 \<Longrightarrow> bytearray xs = Inr (map word_of_int xs)"
  by (simp add: bytearray_def)

lemma uint_byte_of_int: "0 \<le> x \<Longrightarrow> x \<le> 255 \<Longrightarrow> uint (word_of_int x :: byte) = x"
  by (simp add: uint_word_of_int take_bit_eq_mod)

lemma uint_byte_le: "uint (x :: byte) \<le> 255"
  using uint_bounded [of x] by simp

lemma from_bytes_big_1: "from_bytes_big [x] = uint x"
  by (simp add: from_bytes_big_def)

lemma from_bytes_big_3: "from_bytes_big [x, y, z] = uint x * 65536 + uint y * 256 + uint z"
  by (simp add: from_bytes_big_def)

lemma uint_address_bytes:
  assumes "0 \<le> a" "a \<le> 131071"
  shows "uint (word_of_int (a div 65536) :: byte) = a div 65536"
    and "uint (word_of_int (a div 256 mod 256) :: byte) = a div 256 mod 256"
    and "uint (word_of_int (a mod 256) :: byte) = a mod 256"
  using div_hi_bounds [OF assms] by (simp_all add: uint_byte_of_int)

subsection \<open>What each operation does, in closed form\<close>

lemma write_byte_valid:
  assumes "0 \<le> a" "a \<le> 131071" "0 \<le> v" "v \<le> 255"
  shows "write_byte self a v t =
    (Inr (), self,
     t @ [PinValue (cs self) 0,
          SpiWrite (spi self)
            [0x02, word_of_int (a div 65536), word_of_int (a div 256 mod 256),
             word_of_int (a mod 256), word_of_int v],
          PinValue (cs self) 1])"
proof -
  have "bytearray [WRITE, a div 65536 mod 256, a div 256 mod 256, a mod 256, v] =
        Inr (map word_of_int [WRITE, a div 65536 mod 256, a div 256 mod 256, a mod 256, v])"
    using assms by (intro bytearray_in_range) (auto simp: WRITE_def)
  then show ?thesis
    using assms
    by (simp add: write_byte_def address_byte_eq pin_value_def spi_write_def WRITE_def
        div_hi_mod)
qed

lemma read_byte_valid:
  assumes "0 \<le> a" "a \<le> 131071"
  shows "read_byte b self a t =
    (let buf = [0x03, word_of_int (a div 65536), word_of_int (a div 256 mod 256),
                word_of_int (a mod 256)];
         r = b (t @ [PinValue (cs self) 0, SpiWrite (spi self) buf]) (spi self) 1
     in (Inr (from_bytes_big r), self\<lparr>value_read := Some (PyInt (from_bytes_big r))\<rparr>,
     t @ [PinValue (cs self) 0, SpiWrite (spi self) buf, SpiRead (spi self) 1 r,
          PinValue (cs self) 1]))"
proof -
  have "bytearray [READ, a div 65536 mod 256, a div 256 mod 256, a mod 256] =
        Inr (map word_of_int [READ, a div 65536 mod 256, a div 256 mod 256, a mod 256])"
    using assms by (intro bytearray_in_range) (auto simp: READ_def)
  then show ?thesis
    using assms
    by (simp add: read_byte_def address_byte_eq pin_value_def spi_write_def spi_read_def
        READ_def Let_def div_hi_mod)
qed

lemma init_eq:
  "init s p t =
    (Inr (), \<lparr>spi = s, cs = p, value_read = None\<rparr>,
     t @ [PinInit p, PinValue p 1, PinValue p 0, PinValue p 1, PinValue p 0,
          SpiWrite s [0x01, 0x00], PinValue p 1, SleepUs 50])"
  by (simp add: init_def bytearray_def WRMR_def pin_init_def pin_value_def spi_write_def
      sleep_us_def)

subsection \<open>The operations as the chip sees them\<close>

lemma chip_addr_encode:
  assumes "0 \<le> a" "a \<le> 131071"
  shows "chip_addr (word_of_int (a div 65536)) (word_of_int (a div 256 mod 256))
           (word_of_int (a mod 256)) = a"
  using assms recompose [of a]
  by (simp add: chip_addr_def uint_address_bytes [OF assms])

lemma chip_run_append:
  "chip_run s p c0 (t @ ev) = foldl (chip_step s p) (chip_run s p c0 t) ev"
  by (simp add: chip_run_def)

lemma chip_write_window:
  assumes "\<not> selected c"
  shows "foldl (chip_step s p) c
           [PinValue p 0, SpiWrite s [0x02, hi, mid, lo, v], PinValue p 1] =
         c\<lparr>mem := (mem c)(chip_addr hi mid lo := v), selected := False, rx := []\<rparr>"
  using assms by (simp add: chip_feed_def)

lemma chip_read_header:
  assumes "\<not> selected c"
  shows "chip_out (foldl (chip_step s p) c [PinValue p 0, SpiWrite s [0x03, hi, mid, lo]]) n =
         replicate n (mem c (chip_addr hi mid lo))"
  using assms by (simp add: chip_feed_def chip_out_def)

lemma chip_read_window:
  assumes "\<not> selected c"
  shows "foldl (chip_step s p) c
           [PinValue p 0, SpiWrite s [0x03, hi, mid, lo], SpiRead s 1 r, PinValue p 1] =
         c\<lparr>selected := False, rx := []\<rparr>"
  using assms by (simp add: chip_feed_def)

lemma write_byte_chip:
  assumes "\<not> selected (chip_run (spi d) (cs d) c0 t)"
  shows "chip_run (spi d) (cs d) c0 (snd (snd (write_byte d a v t))) =
     (if 0 \<le> a \<and> a \<le> 131071 \<and> 0 \<le> v \<and> v \<le> 255
      then (chip_run (spi d) (cs d) c0 t)
             \<lparr>mem := (mem (chip_run (spi d) (cs d) c0 t))(a := word_of_int v),
              selected := False, rx := []\<rparr>
      else chip_run (spi d) (cs d) c0 t)"
proof (cases "0 \<le> a \<and> a \<le> 131071 \<and> 0 \<le> v \<and> v \<le> 255")
  case True
  then have va: "0 \<le> a" "a \<le> 131071" and vv: "0 \<le> v" "v \<le> 255" by simp_all
  show ?thesis
    using True
    by (simp only: write_byte_valid [OF va vv] snd_conv chip_run_append
        chip_write_window [OF assms] chip_addr_encode [OF va]) simp
next
  case False
  then show ?thesis by (auto simp: write_byte_def)
qed

lemma read_byte_chip:
  assumes "\<not> selected (chip_run (spi d) (cs d) c0 t)"
  shows "chip_run (spi d) (cs d) c0 (snd (snd (read_byte b d a t))) =
     (if 0 \<le> a \<and> a \<le> 131071
      then (chip_run (spi d) (cs d) c0 t)\<lparr>selected := False, rx := []\<rparr>
      else chip_run (spi d) (cs d) c0 t)"
proof (cases "0 \<le> a \<and> a \<le> 131071")
  case True
  then have va: "0 \<le> a" "a \<le> 131071" by simp_all
  show ?thesis
    using True
    by (simp only: read_byte_valid [OF va] Let_def snd_conv chip_run_append
        chip_read_window [OF assms]) simp
next
  case False
  then show ?thesis by (auto simp: read_byte_def)
qed

lemma read_byte_chip_result:
  assumes "\<not> selected (chip_run (spi d) (cs d) c0 t)" and va: "0 \<le> a" "a \<le> 131071"
  shows "fst (read_byte (chip_bus (spi d) (cs d) c0) d a t) =
         Inr (uint (mem (chip_run (spi d) (cs d) c0 t) a))"
proof -
  have "chip_bus (spi d) (cs d) c0
          (t @ [PinValue (cs d) 0,
                SpiWrite (spi d)
                  [0x03, word_of_int (a div 65536), word_of_int (a div 256 mod 256),
                   word_of_int (a mod 256)]]) (spi d) 1 =
        [mem (chip_run (spi d) (cs d) c0 t) a]"
    by (simp only: chip_bus_def chip_run_append chip_read_header [OF assms(1)]
        chip_addr_encode [OF va]) simp
  then show ?thesis
    by (simp add: read_byte_valid [OF va] Let_def from_bytes_big_1)
qed

lemma write_byte_handles:
  "spi (fst (snd (write_byte d a v t))) = spi d \<and> cs (fst (snd (write_byte d a v t))) = cs d"
  by (simp add: write_byte_def Let_def split: sum.splits)

lemma read_byte_handles:
  "spi (fst (snd (read_byte b d a t))) = spi d \<and> cs (fst (snd (read_byte b d a t))) = cs d"
proof (cases "0 \<le> a \<and> a \<le> 131071")
  case True
  then show ?thesis by (simp add: read_byte_valid Let_def)
next
  case False
  then show ?thesis by (auto simp: read_byte_def)
qed

lemma do_call_chip:
  assumes "\<not> selected (chip_run (spi d) (cs d) c0 t)"
    and "\<forall>v'. call \<noteq> WriteByte a v'"
    and "do_call b (d, t) call = (d', t')"
  shows "spi d' = spi d \<and> cs d' = cs d \<and>
         \<not> selected (chip_run (spi d) (cs d) c0 t') \<and>
         mem (chip_run (spi d) (cs d) c0 t') a = mem (chip_run (spi d) (cs d) c0 t) a"
proof (cases call)
  case (WriteByte a' v')
  with assms(2) have ne: "a' \<noteq> a" by auto
  from assms(3) WriteByte have d': "d' = fst (snd (write_byte d a' v' t))"
    and t': "t' = snd (snd (write_byte d a' v' t))"
    by (simp_all add: prod_eq_iff)
  show ?thesis
    using ne assms(1)
    by (simp add: d' t' write_byte_handles write_byte_chip [OF assms(1)])
next
  case (ReadByte a')
  from assms(3) ReadByte have d': "d' = fst (snd (read_byte b d a' t))"
    and t': "t' = snd (snd (read_byte b d a' t))"
    by (simp_all add: prod_eq_iff)
  show ?thesis
    using assms(1)
    by (simp add: d' t' read_byte_handles read_byte_chip [OF assms(1)])
qed

lemma calls_chip:
  assumes "\<not> selected (chip_run (spi d) (cs d) c0 t)"
    and "\<forall>call \<in> set calls. \<forall>v'. call \<noteq> WriteByte a v'"
    and "foldl (do_call b) (d, t) calls = (d', t')"
  shows "spi d' = spi d \<and> cs d' = cs d \<and>
         \<not> selected (chip_run (spi d) (cs d) c0 t') \<and>
         mem (chip_run (spi d) (cs d) c0 t') a = mem (chip_run (spi d) (cs d) c0 t) a"
  using assms
proof (induction calls arbitrary: d t)
  case Nil
  then show ?case by simp
next
  case (Cons call calls)
  obtain d1 t1 where step: "do_call b (d, t) call = (d1, t1)"
    by (cases "do_call b (d, t) call")
  from Cons.prems(2) have nc: "\<forall>v'. call \<noteq> WriteByte a v'" by simp
  note s1 = do_call_chip [OF Cons.prems(1) nc step]
  from s1 have sel1: "\<not> selected (chip_run (spi d1) (cs d1) c0 t1)" by simp
  from Cons.prems(2) have rest: "\<forall>call \<in> set calls. \<forall>v'. call \<noteq> WriteByte a v'" by simp
  from Cons.prems(3) step have run: "foldl (do_call b) (d1, t1) calls = (d', t')" by simp
  from Cons.IH [OF sel1 rest run] s1 show ?case by simp
qed

lemma do_call_deselected:
  assumes "\<not> selected (chip_run (spi d) (cs d) c0 t)"
    and "do_call b (d, t) call = (d', t')"
  shows "spi d' = spi d \<and> cs d' = cs d \<and> \<not> selected (chip_run (spi d) (cs d) c0 t')"
proof (cases call)
  case (WriteByte a' v')
  from assms(2) WriteByte have d': "d' = fst (snd (write_byte d a' v' t))"
    and t': "t' = snd (snd (write_byte d a' v' t))"
    by (simp_all add: prod_eq_iff)
  show ?thesis
    using assms(1) by (simp add: d' t' write_byte_handles write_byte_chip [OF assms(1)])
next
  case (ReadByte a')
  from assms(2) ReadByte have d': "d' = fst (snd (read_byte b d a' t))"
    and t': "t' = snd (snd (read_byte b d a' t))"
    by (simp_all add: prod_eq_iff)
  show ?thesis
    using assms(1) by (simp add: d' t' read_byte_handles read_byte_chip [OF assms(1)])
qed

lemma calls_deselected:
  assumes "\<not> selected (chip_run (spi d) (cs d) c0 t)"
    and "foldl (do_call b) (d, t) calls = (d', t')"
  shows "spi d' = spi d \<and> cs d' = cs d \<and> \<not> selected (chip_run (spi d) (cs d) c0 t')"
  using assms
proof (induction calls arbitrary: d t)
  case Nil
  then show ?case by simp
next
  case (Cons call calls)
  obtain d1 t1 where step: "do_call b (d, t) call = (d1, t1)"
    by (cases "do_call b (d, t) call")
  note s1 = do_call_deselected [OF Cons.prems(1) step]
  from s1 have sel1: "\<not> selected (chip_run (spi d1) (cs d1) c0 t1)" by simp
  from Cons.prems(2) step have run: "foldl (do_call b) (d1, t1) calls = (d', t')" by simp
  from Cons.IH [OF sel1 run] s1 show ?case by simp
qed

text \<open>
  Chip-select is high, whatever state the chip was in at power-up, after construction
  and after any sequence of calls: the hypothesis of the round trip below holds in
  every run of a client.
\<close>

lemma client_deselected:
  assumes "client b s p calls = (d, t)"
  shows "spi d = s \<and> cs d = p \<and> \<not> selected (chip_run s p c0 t)"
proof -
  let ?d0 = "\<lparr>spi = s, cs = p, value_read = None\<rparr>"
  let ?t0 = "[PinInit p, PinValue p 1, PinValue p 0, PinValue p 1, PinValue p 0,
              SpiWrite s [0x01, 0x00], PinValue p 1, SleepUs 50]"
  have sel0: "\<not> selected (chip_run (spi ?d0) (cs ?d0) c0 ?t0)"
    by (simp add: chip_run_def)
  have run: "foldl (do_call b) (?d0, ?t0) calls = (d, t)"
    using assms by (simp add: client_def init_eq)
  from calls_deselected [OF sel0 run] show ?thesis by simp
qed

subsection \<open>Instructions issued\<close>

lemma write_byte_opcodes:
  assumes "list_all opcode_ok t"
  shows "list_all opcode_ok (snd (snd (write_byte d a v t)))"
proof (cases "0 \<le> a \<and> a \<le> 131071 \<and> 0 \<le> v \<and> v \<le> 255")
  case True
  then show ?thesis using assms by (simp add: write_byte_valid)
next
  case False
  then show ?thesis using assms by (auto simp: write_byte_def)
qed

lemma read_byte_opcodes:
  assumes "list_all opcode_ok t"
  shows "list_all opcode_ok (snd (snd (read_byte b d a t)))"
proof (cases "0 \<le> a \<and> a \<le> 131071")
  case True
  then show ?thesis using assms by (simp add: read_byte_valid Let_def)
next
  case False
  then show ?thesis using assms by (auto simp: read_byte_def)
qed

lemma do_call_opcodes:
  "list_all opcode_ok (snd st) \<Longrightarrow> list_all opcode_ok (snd (do_call b st call))"
  by (cases st; cases call) (simp_all add: write_byte_opcodes read_byte_opcodes)

lemma calls_opcodes:
  "list_all opcode_ok (snd st) \<Longrightarrow> list_all opcode_ok (snd (foldl (do_call b) st calls))"
  by (induction calls arbitrary: st) (simp_all add: do_call_opcodes)

lemma client_opcodes: "list_all opcode_ok (snd (client b s p calls))"
  unfolding client_def by (rule calls_opcodes) (simp add: init_eq)

lemma opcode_ok_SpiWrite:
  "opcode_ok (SpiWrite s buf) \<Longrightarrow>
     buf \<noteq> [] \<and> hd buf \<in> {0x01, 0x02, 0x03} \<and> hd buf \<notin> {0x3B, 0x38, 0xFF, 0x05}"
  by (cases buf) auto

section \<open>Claims\<close>

text \<open>
  C1. With the memory chip on the bus and chip-select high beforehand (as it is after
  construction and after every call), \<open>write_byte(a, v)\<close> for a valid address and value
  succeeds, and a later \<open>read_byte(a)\<close> returns \<open>v\<close>, whatever calls come in between
  as long as none of them is a write to \<open>a\<close>.
\<close>

theorem write_read_round_trip:
  assumes "0 \<le> a" "a \<le> 131071" "0 \<le> v" "v \<le> 255"
    and "\<not> selected (chip_run (spi d) (cs d) c0 t)"
    and "\<forall>call \<in> set calls. \<forall>v'. call \<noteq> WriteByte a v'"
  shows "fst (write_byte d a v t) = Inr () \<and>
         (let b = chip_bus (spi d) (cs d) c0;
              (d1, t1) = snd (write_byte d a v t);
              (d2, t2) = foldl (do_call b) (d1, t1) calls
          in fst (read_byte b d2 a t2) = Inr v)"
proof -
  let ?b = "chip_bus (spi d) (cs d) c0"
  let ?t1 = "snd (snd (write_byte d a v t))"
  have ok: "fst (write_byte d a v t) = Inr ()" and d1: "fst (snd (write_byte d a v t)) = d"
    by (simp_all add: write_byte_valid [OF assms(1-4)])
  have c1: "chip_run (spi d) (cs d) c0 ?t1 =
        (chip_run (spi d) (cs d) c0 t)
          \<lparr>mem := (mem (chip_run (spi d) (cs d) c0 t))(a := word_of_int v),
           selected := False, rx := []\<rparr>"
    using assms(1-4) by (simp add: write_byte_chip [OF assms(5)])
  then have sel1: "\<not> selected (chip_run (spi d) (cs d) c0 ?t1)"
    and mem1: "mem (chip_run (spi d) (cs d) c0 ?t1) a = word_of_int v"
    by simp_all
  obtain d2 t2 where run: "foldl (do_call ?b) (d, ?t1) calls = (d2, t2)"
    by (cases "foldl (do_call ?b) (d, ?t1) calls")
  note inv = calls_chip [OF sel1 assms(6) run]
  from inv have h: "spi d2 = spi d" "cs d2 = cs d" by simp_all
  from inv have sel2: "\<not> selected (chip_run (spi d2) (cs d2) c0 t2)" by (simp add: h)
  from inv mem1 have mem2: "mem (chip_run (spi d2) (cs d2) c0 t2) a = word_of_int v"
    by (simp add: h)
  have "fst (read_byte (chip_bus (spi d2) (cs d2) c0) d2 a t2) = Inr v"
    using assms(3,4)
    by (simp add: read_byte_chip_result [OF sel2 assms(1,2)] mem2 uint_byte_of_int)
  then have "fst (read_byte ?b d2 a t2) = Inr v" by (simp add: h)
  moreover have "snd (write_byte d a v t) = (d, ?t1)"
    using d1 by (simp add: prod_eq_iff)
  ultimately show ?thesis
    using ok run by (simp add: Let_def)
qed

theorem write_read_round_trip_witness:
  "fst (write_byte \<lparr>spi = 0, cs = 1, value_read = None\<rparr> 131071 38
         [PinInit 1, PinValue 1 1, PinValue 1 0, PinValue 1 1, PinValue 1 0,
          SpiWrite 0 [0x01, 0x00], PinValue 1 1, SleepUs 50]) = Inr () \<and>
   (let b = chip_bus (spi \<lparr>spi = 0, cs = 1, value_read = None\<rparr>)
              (cs \<lparr>spi = 0, cs = 1, value_read = None\<rparr>)
              \<lparr>mem = (\<lambda>x. 0), selected = True, rx = [0x02, 0x00]\<rparr>;
        (d1, t1) = snd (write_byte \<lparr>spi = 0, cs = 1, value_read = None\<rparr> 131071 38
                          [PinInit 1, PinValue 1 1, PinValue 1 0, PinValue 1 1, PinValue 1 0,
                           SpiWrite 0 [0x01, 0x00], PinValue 1 1, SleepUs 50]);
        (d2, t2) = foldl (do_call b) (d1, t1) [WriteByte 0 255, ReadByte 0, WriteByte 5 256]
    in fst (read_byte b d2 131071 t2) = Inr 38)"
  by (rule write_read_round_trip) (simp_all add: chip_run_def chip_feed_def)

text \<open>
  C2. For a valid address and value, \<open>write_byte\<close> succeeds, leaves the object as it
  was, and adds to the trace exactly: chip-select low, one bus write of the five bytes
  \<open>[0x02, hi, mid, lo, v]\<close> whose three address bytes are the big-endian encoding of
  the address, chip-select high.
\<close>

theorem write_byte_transaction:
  assumes "0 \<le> a" "a \<le> 131071" "0 \<le> v" "v \<le> 255"
  shows "\<exists>buf. write_byte self a v t =
           (Inr (), self,
            t @ [PinValue (cs self) 0, SpiWrite (spi self) buf, PinValue (cs self) 1]) \<and>
         map uint buf = [0x02, a div 65536, a div 256 mod 256, a mod 256, v] \<and>
         from_bytes_big (take 3 (drop 1 buf)) = a"
  using assms uint_address_bytes [OF assms(1,2)] recompose [of a]
  by (simp add: write_byte_valid from_bytes_big_3 uint_byte_of_int)

theorem write_byte_transaction_witness:
  "write_byte \<lparr>spi = 0, cs = 1, value_read = None\<rparr> 131071 38 [] =
     (Inr (), \<lparr>spi = 0, cs = 1, value_read = None\<rparr>,
      [PinValue 1 0, SpiWrite 0 [0x02, 0x01, 0xFF, 0xFF, 0x26], PinValue 1 1])"
proof -
  have "\<exists>buf. write_byte \<lparr>spi = 0, cs = 1, value_read = None\<rparr> 131071 38 [] =
           (Inr (), \<lparr>spi = 0, cs = 1, value_read = None\<rparr>,
            [] @ [PinValue (cs \<lparr>spi = 0, cs = 1, value_read = None\<rparr>) 0,
                  SpiWrite (spi \<lparr>spi = 0, cs = 1, value_read = None\<rparr>) buf,
                  PinValue (cs \<lparr>spi = 0, cs = 1, value_read = None\<rparr>) 1]) \<and>
         map uint buf = [0x02, 131071 div 65536, 131071 div 256 mod 256, 131071 mod 256, 38] \<and>
         from_bytes_big (take 3 (drop 1 buf)) = 131071"
    by (rule write_byte_transaction) simp_all
  then obtain buf where
    w: "write_byte \<lparr>spi = 0, cs = 1, value_read = None\<rparr> 131071 38 [] =
           (Inr (), \<lparr>spi = 0, cs = 1, value_read = None\<rparr>,
            [PinValue 1 0, SpiWrite 0 buf, PinValue 1 1])"
    and m: "map uint buf = [0x02, 1, 255, 255, 38]"
    by auto
  have "map word_of_int (map uint buf) = (map word_of_int [0x02, 1, 255, 255, 38] :: byte list)"
    by (simp only: m)
  then have "buf = [0x02, 0x01, 0xFF, 0xFF, 0x26]"
    by (simp add: comp_def)
  with w show ?thesis by simp
qed

text \<open>
  C3. For a valid address, \<open>read_byte\<close> adds to the trace exactly: chip-select low, one
  bus write of the four bytes \<open>[0x03, hi, mid, lo]\<close> (big-endian address), one bus read
  of one byte, chip-select high; it returns the bytes received read as a big-endian
  unsigned integer, which for a single byte is that byte's value in 0..255. For address
  500 the header is 03 00 01 F4.
\<close>

theorem read_byte_transaction:
  "(0 \<le> a \<and> a \<le> 131071 \<longrightarrow>
      (\<exists>buf r. read_byte b self a t =
           (Inr (from_bytes_big r), self\<lparr>value_read := Some (PyInt (from_bytes_big r))\<rparr>,
            t @ [PinValue (cs self) 0, SpiWrite (spi self) buf, SpiRead (spi self) 1 r,
                 PinValue (cs self) 1]) \<and>
         r = b (t @ [PinValue (cs self) 0, SpiWrite (spi self) buf]) (spi self) 1 \<and>
         map uint buf = [0x03, a div 65536, a div 256 mod 256, a mod 256] \<and>
         from_bytes_big (drop 1 buf) = a \<and>
         (\<forall>x. r = [x] \<longrightarrow> from_bytes_big r = uint x \<and> 0 \<le> uint x \<and> uint x \<le> 255))) \<and>
   (\<exists>r. snd (snd (read_byte b self 500 t)) =
      t @ [PinValue (cs self) 0, SpiWrite (spi self) [0x03, 0x00, 0x01, 0xF4],
           SpiRead (spi self) 1 r, PinValue (cs self) 1])"
proof -
  have gen: "\<exists>buf r. read_byte b self a t =
           (Inr (from_bytes_big r), self\<lparr>value_read := Some (PyInt (from_bytes_big r))\<rparr>,
            t @ [PinValue (cs self) 0, SpiWrite (spi self) buf, SpiRead (spi self) 1 r,
                 PinValue (cs self) 1]) \<and>
         r = b (t @ [PinValue (cs self) 0, SpiWrite (spi self) buf]) (spi self) 1 \<and>
         map uint buf = [0x03, a div 65536, a div 256 mod 256, a mod 256] \<and>
         from_bytes_big (drop 1 buf) = a \<and>
         (\<forall>x. r = [x] \<longrightarrow> from_bytes_big r = uint x \<and> 0 \<le> uint x \<and> uint x \<le> 255)"
    if va: "0 \<le> a" "a \<le> 131071"
    using uint_address_bytes [OF va] recompose [of a]
    by (simp add: read_byte_valid [OF va] from_bytes_big_3 from_bytes_big_1 uint_byte_le
        Let_def)
  have "\<exists>r. snd (snd (read_byte b self 500 t)) =
      t @ [PinValue (cs self) 0, SpiWrite (spi self) [0x03, 0x00, 0x01, 0xF4],
           SpiRead (spi self) 1 r, PinValue (cs self) 1]"
    by (simp add: read_byte_valid Let_def)
  with gen show ?thesis by blast
qed

theorem read_byte_transaction_witness:
  "read_byte (\<lambda>t s n. [0x26]) \<lparr>spi = 0, cs = 1, value_read = None\<rparr> 131071 [] =
     (Inr 38, \<lparr>spi = 0, cs = 1, value_read = Some (PyInt 38)\<rparr>,
      [PinValue 1 0, SpiWrite 0 [0x03, 0x01, 0xFF, 0xFF], SpiRead 0 1 [0x26], PinValue 1 1])"
proof -
  have va: "(0::int) \<le> 131071 \<and> (131071::int) \<le> 131071" by simp
  have "\<exists>buf r. read_byte (\<lambda>t s n. [0x26]) \<lparr>spi = 0, cs = 1, value_read = None\<rparr> 131071 [] =
           (Inr (from_bytes_big r),
            \<lparr>spi = 0, cs = 1, value_read = None\<rparr>
              \<lparr>value_read := Some (PyInt (from_bytes_big r))\<rparr>,
            [] @ [PinValue (cs \<lparr>spi = 0, cs = 1, value_read = None\<rparr>) 0,
                  SpiWrite (spi \<lparr>spi = 0, cs = 1, value_read = None\<rparr>) buf,
                  SpiRead (spi \<lparr>spi = 0, cs = 1, value_read = None\<rparr>) 1 r,
                  PinValue (cs \<lparr>spi = 0, cs = 1, value_read = None\<rparr>) 1]) \<and>
         r = [0x26] \<and>
         map uint buf = [0x03, 131071 div 65536, 131071 div 256 mod 256, 131071 mod 256] \<and>
         from_bytes_big (drop 1 buf) = 131071 \<and>
         (\<forall>x. r = [x] \<longrightarrow> from_bytes_big r = uint x \<and> 0 \<le> uint x \<and> uint x \<le> 255)"
    by (rule mp [OF conjunct1 [OF read_byte_transaction
          [of 131071 "\<lambda>t s n. [0x26]" "\<lparr>spi = 0, cs = 1, value_read = None\<rparr>" "[]"]] va])
  then obtain buf r where
    w: "read_byte (\<lambda>t s n. [0x26]) \<lparr>spi = 0, cs = 1, value_read = None\<rparr> 131071 [] =
           (Inr (from_bytes_big r),
            \<lparr>spi = 0, cs = 1, value_read = None\<rparr>
              \<lparr>value_read := Some (PyInt (from_bytes_big r))\<rparr>,
            [] @ [PinValue (cs \<lparr>spi = 0, cs = 1, value_read = None\<rparr>) 0,
                  SpiWrite (spi \<lparr>spi = 0, cs = 1, value_read = None\<rparr>) buf,
                  SpiRead (spi \<lparr>spi = 0, cs = 1, value_read = None\<rparr>) 1 r,
                  PinValue (cs \<lparr>spi = 0, cs = 1, value_read = None\<rparr>) 1])"
    and r: "r = [0x26]"
    and m: "map uint buf = [0x03, 131071 div 65536, 131071 div 256 mod 256, 131071 mod 256]"
    by (elim exE conjE) (rule that, assumption+)
  have "map word_of_int (map uint buf) =
        (map word_of_int [0x03, 131071 div 65536, 131071 div 256 mod 256, 131071 mod 256]
           :: byte list)"
    by (simp only: m)
  then have "buf = [0x03, 0x01, 0xFF, 0xFF]"
    by (simp add: comp_def)
  with w r show ?thesis by (simp add: from_bytes_big_1)
qed

text \<open>
  C4. For every address in 0..131071 the encoding shared by \<open>write_byte\<close> and
  \<open>read_byte\<close> is exactly three bytes, most significant first, that recompose to the
  address (\<open>hi * 65536 + mid * 256 + lo = a\<close>), with the top byte at most 1; address 0
  encodes as 00 00 00 and address 131071 as 01 FF FF.
\<close>

theorem address_encoding:
  "(0 \<le> a \<and> a \<le> 131071 \<longrightarrow>
      (\<exists>hi mid lo. address_byte a = [hi, mid, lo] \<and> hi * 65536 + mid * 256 + lo = a \<and>
         0 \<le> hi \<and> hi \<le> 1 \<and> 0 \<le> mid \<and> mid \<le> 255 \<and> 0 \<le> lo \<and> lo \<le> 255)) \<and>
   address_byte 0 = [0x00, 0x00, 0x00] \<and>
   address_byte 131071 = [0x01, 0xFF, 0xFF]"
proof -
  have "\<exists>hi mid lo. address_byte a = [hi, mid, lo] \<and> hi * 65536 + mid * 256 + lo = a \<and>
         0 \<le> hi \<and> hi \<le> 1 \<and> 0 \<le> mid \<and> mid \<le> 255 \<and> 0 \<le> lo \<and> lo \<le> 255"
    if "0 \<le> a" "a \<le> 131071"
    using div_hi_bounds [OF that] recompose [of a]
    by (simp add: address_byte_eq div_hi_mod that mod_256_le)
  moreover have "address_byte 0 = [0x00, 0x00, 0x00]"
    by (simp add: address_byte_eq)
  moreover have "address_byte 131071 = [0x01, 0xFF, 0xFF]"
    by (simp add: address_byte_eq)
  ultimately show ?thesis by blast
qed

theorem address_encoding_witness:
  "(0::int) \<le> 500 \<and> (500::int) \<le> 131071 \<and>
   (\<exists>hi mid lo. address_byte 500 = [hi, mid, lo] \<and> hi * 65536 + mid * 256 + lo = 500 \<and>
      0 \<le> hi \<and> hi \<le> 1 \<and> 0 \<le> mid \<and> mid \<le> 255 \<and> 0 \<le> lo \<and> lo \<le> 255)"
  using address_encoding [of 500] by simp

text \<open>
  C5. An address outside 0..131071 makes \<open>write_byte\<close> (whatever the value) and
  \<open>read_byte\<close> fail with a ValueError, and a value outside 0..255 at a valid address
  makes \<open>write_byte\<close> fail with a ValueError; in each case the trace and the object are
  returned unchanged: no chip-select toggle and no bus transaction.
\<close>

theorem validation_errors:
  "(a < 0 \<or> a > 131071 \<longrightarrow>
      write_byte self a v t =
        (Inl (ValueError ''Address is outside of device address range (0 to 131071)''),
         self, t) \<and>
      read_byte b self a t =
        (Inl (ValueError
           ''Address is outside of device address range (0 to 131071 (0x1ffff))''),
         self, t)) \<and>
   (0 \<le> a \<and> a \<le> 131071 \<and> (v < 0 \<or> v > 255) \<longrightarrow>
      write_byte self a v t =
        (Inl (ValueError ''You can only pass an 8-bit data value (0-255) to this function''),
         self, t))"
  by (auto simp: write_byte_def read_byte_def)

theorem validation_errors_witness:
  "write_byte \<lparr>spi = 0, cs = 1, value_read = None\<rparr> 131072 10 [] =
     (Inl (ValueError ''Address is outside of device address range (0 to 131071)''),
      \<lparr>spi = 0, cs = 1, value_read = None\<rparr>, []) \<and>
   read_byte (\<lambda>t s n. [0x26]) \<lparr>spi = 0, cs = 1, value_read = None\<rparr> 131072 [] =
     (Inl (ValueError ''Address is outside of device address range (0 to 131071 (0x1ffff))''),
      \<lparr>spi = 0, cs = 1, value_read = None\<rparr>, []) \<and>
   write_byte \<lparr>spi = 0, cs = 1, value_read = None\<rparr> 5 256 [] =
     (Inl (ValueError ''You can only pass an 8-bit data value (0-255) to this function''),
      \<lparr>spi = 0, cs = 1, value_read = None\<rparr>, [])"
  using validation_errors [of 131072 "\<lparr>spi = 0, cs = 1, value_read = None\<rparr>" 10 "[]"
      "\<lambda>t s n. [0x26]"]
    validation_errors [of 5 "\<lparr>spi = 0, cs = 1, value_read = None\<rparr>" 256 "[]"
      "\<lambda>t s n. [0x26]"]
  by simp

text \<open>
  C6. Construction succeeds and adds to the trace exactly, in this order: the pin made an
  output, chip-select high, low, high with no bus activity in between, chip-select low,
  one bus write of the two bytes \<open>[0x01, 0x00]\<close>, chip-select high, a delay of 50
  microseconds. The object it returns, which \<open>write_byte\<close> and \<open>read_byte\<close> need,
  exists only after that.
\<close>

theorem init_sequence:
  "init s p t =
    (Inr (), \<lparr>spi = s, cs = p, value_read = None\<rparr>,
     t @ [PinInit p, PinValue p 1, PinValue p 0, PinValue p 1, PinValue p 0,
          SpiWrite s [0x01, 0x00], PinValue p 1, SleepUs 50])"
  by (rule init_eq)

text \<open>
  C7 (as the spec states it). Every \<open>write_byte\<close> and \<open>read_byte\<close> call leaves all
  fields of the object unchanged. This fails: a successful \<open>read_byte\<close> stores the value
  it read in the attribute \<open>value_read\<close>.
\<close>

theorem read_byte_stores_value_counterexample:
  "fst (snd (read_byte (\<lambda>t s n. [0x26]) \<lparr>spi = 0, cs = 1, value_read = None\<rparr> 0 [])) \<noteq>
   \<lparr>spi = 0, cs = 1, value_read = None\<rparr>"
  by (simp add: read_byte_valid Let_def from_bytes_big_1)

text \<open>
  C7 (amended). \<open>write_byte\<close> leaves every field of the object unchanged. \<open>read_byte\<close>
  leaves the bus handle and the chip-select pin unchanged; when it succeeds it sets
  \<open>value_read\<close> to the integer it returns, and when it fails it leaves \<open>value_read\<close>
  unchanged too.
\<close>

theorem device_frame:
  "fst (snd (write_byte self a v t)) = self \<and>
   spi (fst (snd (read_byte b self a t))) = spi self \<and>
   cs (fst (snd (read_byte b self a t))) = cs self \<and>
   value_read (fst (snd (read_byte b self a t))) =
     (case fst (read_byte b self a t) of
        Inr n \<Rightarrow> Some (PyInt n)
      | Inl e \<Rightarrow> value_read self)"
proof -
  have w: "fst (snd (write_byte self a v t)) = self"
    by (simp add: write_byte_def Let_def split: sum.splits)
  show ?thesis
  proof (cases "0 \<le> a \<and> a \<le> 131071")
    case True
    then show ?thesis using w by (simp add: read_byte_valid Let_def)
  next
    case False
    then show ?thesis using w by (auto simp: read_byte_def)
  qed
qed

text \<open>
  C8. In every run of a client (construction on a fresh trace, then any sequence of
  \<open>write_byte\<close> and \<open>read_byte\<close> calls, over any bus), every bus write is non-empty and
  its first byte is 0x01, 0x02 or 0x03; so none of 0x3B, 0x38, 0xFF and 0x05 is ever
  sent as an instruction.
\<close>

theorem opcodes_issued:
  "[WRMR, WRITE, READ, EDIO, EQIO, RSTIO, RDMR] = [0x01, 0x02, 0x03, 0x3B, 0x38, 0xFF, 0x05] \<and>
   (\<forall>e \<in> set (snd (client b s p calls)). \<forall>s' buf. e = SpiWrite s' buf \<longrightarrow>
      buf \<noteq> [] \<and> hd buf \<in> {0x01, 0x02, 0x03} \<and> hd buf \<notin> {0x3B, 0x38, 0xFF, 0x05})"
proof -
  have vals: "[WRMR, WRITE, READ, EDIO, EQIO, RSTIO, RDMR] =
        [0x01, 0x02, 0x03, 0x3B, 0x38, 0xFF, 0x05]"
    by (simp add: WRMR_def WRITE_def READ_def EDIO_def EQIO_def RSTIO_def RDMR_def)
  have "buf \<noteq> [] \<and> hd buf \<in> {0x01, 0x02, 0x03} \<and> hd buf \<notin> {0x3B, 0x38, 0xFF, 0x05}"
    if "e \<in> set (snd (client b s p calls))" and "e = SpiWrite s' buf" for e s' buf
  proof -
    from that client_opcodes [of b s p calls] have "opcode_ok (SpiWrite s' buf)"
      by (auto simp: list_all_iff)
    then show ?thesis by (rule opcode_ok_SpiWrite)
  qed
  with vals show ?thesis by blast
qed

theorem opcodes_issued_witness:
  "snd (client (\<lambda>t s n. [0x3B]) 0 1 [WriteByte 131071 0x3B, ReadByte 131071, WriteByte 5 256]) =
     [PinInit 1, PinValue 1 1, PinValue 1 0, PinValue 1 1, PinValue 1 0,
      SpiWrite 0 [0x01, 0x00], PinValue 1 1, SleepUs 50,
      PinValue 1 0, SpiWrite 0 [0x02, 0x01, 0xFF, 0xFF, 0x3B], PinValue 1 1,
      PinValue 1 0, SpiWrite 0 [0x03, 0x01, 0xFF, 0xFF], SpiRead 0 1 [0x3B], PinValue 1 1] \<and>
   SpiWrite 0 [0x02, 0x01, 0xFF, 0xFF, 0x3B] \<in>
     set (snd (client (\<lambda>t s n. [0x3B]) 0 1
                 [WriteByte 131071 0x3B, ReadByte 131071, WriteByte 5 256])) \<and>
   [0x02, 0x01, 0xFF, 0xFF, 0x3B] \<noteq> ([] :: byte list) \<and>
   hd [0x02, 0x01, 0xFF, 0xFF, 0x3B] \<in> {0x01, 0x02, 0x03 :: byte} \<and>
   hd [0x02, 0x01, 0xFF, 0xFF, 0x3B] \<notin> {0x3B, 0x38, 0xFF, 0x05 :: byte}"
proof -
  let ?t = "snd (client (\<lambda>t s n. [0x3B]) 0 1
                   [WriteByte 131071 0x3B, ReadByte 131071, WriteByte 5 256])"
  have tr: "?t =
     [PinInit 1, PinValue 1 1, PinValue 1 0, PinValue 1 1, PinValue 1 0,
      SpiWrite 0 [0x01, 0x00], PinValue 1 1, SleepUs 50,
      PinValue 1 0, SpiWrite 0 [0x02, 0x01, 0xFF, 0xFF, 0x3B], PinValue 1 1,
      PinValue 1 0, SpiWrite 0 [0x03, 0x01, 0xFF, 0xFF], SpiRead 0 1 [0x3B], PinValue 1 1]"
    by (simp add: client_def init_eq write_byte_def read_byte_def address_byte_def
        bytearray_def pin_value_def spi_write_def spi_read_def WRITE_def READ_def
        from_bytes_big_def Let_def)
  have el: "SpiWrite 0 [0x02, 0x01, 0xFF, 0xFF, 0x3B] \<in> set ?t"
    by (simp only: tr) simp
  have "\<forall>e \<in> set ?t. \<forall>s' buf. e = SpiWrite s' buf \<longrightarrow>
      buf \<noteq> [] \<and> hd buf \<in> {0x01, 0x02, 0x03} \<and> hd buf \<notin> {0x3B, 0x38, 0xFF, 0x05}"
    by (rule conjunct2 [OF opcodes_issued])
  with el have "[0x02, 0x01, 0xFF, 0xFF, 0x3B] \<noteq> ([] :: byte list) \<and>
      hd [0x02, 0x01, 0xFF, 0xFF, 0x3B] \<in> {0x01, 0x02, 0x03 :: byte} \<and>
      hd [0x02, 0x01, 0xFF, 0xFF, 0x3B] \<notin> {0x3B, 0x38, 0xFF, 0x05 :: byte}"
    by blast
  with tr el show ?thesis by blast
qed

text \<open>
  C9. What an operation adds to the trace and what it returns depend only on its
  arguments, on the handles of the object and on what the bus answers: two runs of
  \<open>write_byte\<close>, of \<open>read_byte\<close> or of the constructor with the same arguments, started
  from any two traces and any two states of \<open>value_read\<close>, over two buses that answer
  alike, return the same result or error and add the same events. Each run adds at most
  one bus write, at most one bus read and, for \<open>write_byte\<close> and \<open>read_byte\<close>, at most one
  chip-select assertion: nothing is retried.
\<close>

theorem single_attempt_deterministic:
  assumes "spi d1 = spi d2" "cs d1 = cs d2"
    and "\<forall>h n. b1 (t1 @ h) (spi d1) n = b2 (t2 @ h) (spi d2) n"
  shows
    "(fst (write_byte d1 a v t1) = fst (write_byte d2 a v t2) \<and>
      (\<exists>ev. snd (snd (write_byte d1 a v t1)) = t1 @ ev \<and>
            snd (snd (write_byte d2 a v t2)) = t2 @ ev \<and>
            length (filter is_spi_write ev) \<le> 1 \<and>
            length (filter is_spi_read ev) = 0 \<and>
            length (filter is_cs_low ev) \<le> 1)) \<and>
     (fst (read_byte b1 d1 a t1) = fst (read_byte b2 d2 a t2) \<and>
      (\<exists>ev. snd (snd (read_byte b1 d1 a t1)) = t1 @ ev \<and>
            snd (snd (read_byte b2 d2 a t2)) = t2 @ ev \<and>
            length (filter is_spi_write ev) \<le> 1 \<and>
            length (filter is_spi_read ev) \<le> 1 \<and>
            length (filter is_cs_low ev) \<le> 1)) \<and>
     (fst (init s p t1) = fst (init s p t2) \<and>
      fst (snd (init s p t1)) = fst (snd (init s p t2)) \<and>
      (\<exists>ev. snd (snd (init s p t1)) = t1 @ ev \<and>
            snd (snd (init s p t2)) = t2 @ ev \<and>
            length (filter is_spi_write ev) = 1 \<and>
            length (filter is_spi_read ev) = 0))"
proof -
  have w: "fst (write_byte d1 a v t1) = fst (write_byte d2 a v t2) \<and>
      (\<exists>ev. snd (snd (write_byte d1 a v t1)) = t1 @ ev \<and>
            snd (snd (write_byte d2 a v t2)) = t2 @ ev \<and>
            length (filter is_spi_write ev) \<le> 1 \<and>
            length (filter is_spi_read ev) = 0 \<and>
            length (filter is_cs_low ev) \<le> 1)"
  proof (cases "0 \<le> a \<and> a \<le> 131071 \<and> 0 \<le> v \<and> v \<le> 255")
    case True
    then show ?thesis using assms(1,2) by (simp add: write_byte_valid)
  next
    case False
    then show ?thesis by (auto simp: write_byte_def)
  qed
  have r: "fst (read_byte b1 d1 a t1) = fst (read_byte b2 d2 a t2) \<and>
      (\<exists>ev. snd (snd (read_byte b1 d1 a t1)) = t1 @ ev \<and>
            snd (snd (read_byte b2 d2 a t2)) = t2 @ ev \<and>
            length (filter is_spi_write ev) \<le> 1 \<and>
            length (filter is_spi_read ev) \<le> 1 \<and>
            length (filter is_cs_low ev) \<le> 1)"
  proof (cases "0 \<le> a \<and> a \<le> 131071")
    case True
    then have va: "0 \<le> a" "a \<le> 131071" by simp_all
    have same: "b1 (t1 @ h) (spi d2) n = b2 (t2 @ h) (spi d2) n" for h n
      using assms(3) assms(1) by simp
    show ?thesis
      using assms(1,2) by (simp add: read_byte_valid [OF va] Let_def same)
  next
    case False
    then show ?thesis by (auto simp: read_byte_def)
  qed
  have i: "fst (init s p t1) = fst (init s p t2) \<and>
      fst (snd (init s p t1)) = fst (snd (init s p t2)) \<and>
      (\<exists>ev. snd (snd (init s p t1)) = t1 @ ev \<and>
            snd (snd (init s p t2)) = t2 @ ev \<and>
            length (filter is_spi_write ev) = 1 \<and>
            length (filter is_spi_read ev) = 0)"
    by (simp add: init_eq)
  from w r i show ?thesis by blast
qed

theorem single_attempt_deterministic_witness:
  "(fst (write_byte \<lparr>spi = 0, cs = 1, value_read = None\<rparr> 0 255 []) =
    fst (write_byte \<lparr>spi = 0, cs = 1, value_read = Some (PyInt 7)\<rparr> 0 255 [SleepUs 50]) \<and>
      (\<exists>ev. snd (snd (write_byte \<lparr>spi = 0, cs = 1, value_read = None\<rparr> 0 255 [])) = [] @ ev \<and>
            snd (snd (write_byte \<lparr>spi = 0, cs = 1, value_read = Some (PyInt 7)\<rparr> 0 255
                        [SleepUs 50])) = [SleepUs 50] @ ev \<and>
            length (filter is_spi_write ev) \<le> 1 \<and>
            length (filter is_spi_read ev) = 0 \<and>
            length (filter is_cs_low ev) \<le> 1)) \<and>
     (fst (read_byte (\<lambda>t s n. [0x26]) \<lparr>spi = 0, cs = 1, value_read = None\<rparr> 0 []) =
      fst (read_byte (\<lambda>t s n. if t = [] then [] else [0x26])
             \<lparr>spi = 0, cs = 1, value_read = Some (PyInt 7)\<rparr> 0 [SleepUs 50]) \<and>
      (\<exists>ev. snd (snd (read_byte (\<lambda>t s n. [0x26])
                        \<lparr>spi = 0, cs = 1, value_read = None\<rparr> 0 [])) = [] @ ev \<and>
            snd (snd (read_byte (\<lambda>t s n. if t = [] then [] else [0x26])
                        \<lparr>spi = 0, cs = 1, value_read = Some (PyInt 7)\<rparr> 0 [SleepUs 50])) =
              [SleepUs 50] @ ev \<and>
            length (filter is_spi_write ev) \<le> 1 \<and>
            length (filter is_spi_read ev) \<le> 1 \<and>
            length (filter is_cs_low ev) \<le> 1)) \<and>
     (fst (init 0 1 []) = fst (init 0 1 [SleepUs 50]) \<and>
      fst (snd (init 0 1 [])) = fst (snd (init 0 1 [SleepUs 50])) \<and>
      (\<exists>ev. snd (snd (init 0 1 [])) = [] @ ev \<and>
            snd (snd (init 0 1 [SleepUs 50])) = [SleepUs 50] @ ev \<and>
            length (filter is_spi_write ev) = 1 \<and>
            length (filter is_spi_read ev) = 0))"
  by (rule single_attempt_deterministic) simp_all

text \<open>
  C10. For a valid address, when the bus answers the read with exactly one byte,
  \<open>read_byte\<close> returns that byte read as a big-endian unsigned integer, that is the
  byte's own value, which lies in 0..255.
\<close>

theorem read_byte_result_range:
  assumes "0 \<le> a" "a \<le> 131071"
    and "length (b (t @ [PinValue (cs self) 0,
                        SpiWrite (spi self)
                          [0x03, word_of_int (a div 65536), word_of_int (a div 256 mod 256),
                           word_of_int (a mod 256)]]) (spi self) 1) = 1"
  shows "\<exists>x. b (t @ [PinValue (cs self) 0,
                      SpiWrite (spi self)
                        [0x03, word_of_int (a div 65536), word_of_int (a div 256 mod 256),
                         word_of_int (a mod 256)]]) (spi self) 1 = [x] \<and>
             fst (read_byte b self a t) = Inr (uint x) \<and>
             from_bytes_big [x] = uint x \<and>
             0 \<le> uint x \<and> uint x \<le> 255"
proof -
  obtain x where x: "b (t @ [PinValue (cs self) 0,
                        SpiWrite (spi self)
                          [0x03, word_of_int (a div 65536), word_of_int (a div 256 mod 256),
                           word_of_int (a mod 256)]]) (spi self) 1 = [x]"
    using assms(3) by (auto simp: length_Suc_conv)
  have "fst (read_byte b self a t) = Inr (uint x)"
    using x by (simp add: read_byte_valid [OF assms(1,2)] Let_def from_bytes_big_1)
  with x show ?thesis
    by (simp add: from_bytes_big_1 uint_byte_le)
qed

theorem read_byte_result_range_witness:
  "fst (read_byte (\<lambda>t s n. [0xFF]) \<lparr>spi = 0, cs = 1, value_read = None\<rparr> 500 []) = Inr 255"
proof -
  have "\<exists>x. [0xFF :: byte] = [x] \<and>
          fst (read_byte (\<lambda>t s n. [0xFF]) \<lparr>spi = 0, cs = 1, value_read = None\<rparr> 500 []) =
            Inr (uint x) \<and>
          from_bytes_big [x] = uint x \<and> 0 \<le> uint x \<and> uint x \<le> 255"
    using read_byte_result_range
      [of 500 "\<lambda>t s n. [0xFF]" "[]" "\<lparr>spi = 0, cs = 1, value_read = None\<rparr>"]
    by simp
  then obtain x :: byte where "x = 0xFF"
    and "fst (read_byte (\<lambda>t s n. [0xFF]) \<lparr>spi = 0, cs = 1, value_read = None\<rparr> 500 []) =
           Inr (uint x)"
    by auto
  then show ?thesis by simp
qed

end
